theory Spec2Isabelle
  imports Complex_Main "HOL-Library.Word" "HOL-Library.Log_Nat"
begin

section \<open>Strings and the whitespace classes of the regular expressions\<close>

text \<open>
  A JavaScript string is a sequence of UTF-16 code units. The regular expressions of
  \<^verbatim>\<open>Memorizer.tsx\<close> carry no \<^verbatim>\<open>u\<close> flag, so they match code unit by code unit.
\<close>

type_synonym jschar = "16 word"
type_synonym jsstring = "jschar list"

text \<open>
  The class \<^verbatim>\<open>\s\<close>: the WhiteSpace and LineTerminator code points of ECMAScript
  (TAB, LF, VT, FF, CR, SP, NBSP, U+1680, U+2000 to U+200A, LS, PS, U+202F, U+205F,
  U+3000, BOM). \<^verbatim>\<open>\S\<close> is its complement.
\<close>

definition is_space :: "jschar \<Rightarrow> bool" where
  "is_space c \<longleftrightarrow>
     c = 0x0009 \<or> c = 0x000A \<or> c = 0x000B \<or> c = 0x000C \<or> c = 0x000D \<or> c = 0x0020 \<or>
     c = 0x00A0 \<or> c = 0x1680 \<or> (0x2000 \<le> c \<and> c \<le> 0x200A) \<or> c = 0x2028 \<or>
     c = 0x2029 \<or> c = 0x202F \<or> c = 0x205F \<or> c = 0x3000 \<or> c = 0xFEFF"

definition non_space :: "jschar \<Rightarrow> bool" where
  "non_space c \<longleftrightarrow> \<not> is_space c"

text \<open>\<^verbatim>\<open>/\S/.test(w)\<close>: some code unit of \<open>w\<close> is not whitespace.\<close>

definition test_S :: "jsstring \<Rightarrow> bool" where
  "test_S w \<longleftrightarrow> list_ex non_space w"

section \<open>The tokenizer\<close>

text \<open>
  \<^verbatim>\<open>script.content.split(/(\s+)/)\<close>. The split of ECMAScript scans the string from the
  left for the next position where the separator matches; at a match it emits the text
  before the match, then the captured group (here the whole, greedy, run of whitespace),
  and goes on behind the match; at the end it emits the rest of the string. The empty
  string, which the separator does not match, gives the one-element array holding it.
\<close>

function js_split_ws :: "jsstring \<Rightarrow> jsstring list" where
  "js_split_ws s =
     (if dropWhile non_space s = [] then [takeWhile non_space s]
      else takeWhile non_space s
             # takeWhile is_space (dropWhile non_space s)
             # js_split_ws (dropWhile is_space (dropWhile non_space s)))"
  by pat_completeness auto
termination
proof (relation "measure length")
  show "wf (measure length)" by simp
next
  fix s :: jsstring
  assume ne: "dropWhile non_space s \<noteq> []"
  then obtain c r where cr: "dropWhile non_space s = c # r"
    by (cases "dropWhile non_space s") auto
  then have "\<not> non_space c"
    using hd_dropWhile [of non_space s] by simp
  then have sp: "is_space c" by (simp add: non_space_def)
  have "length (dropWhile is_space (c # r)) \<le> length r"
    using sp by (simp add: length_dropWhile_le)
  also have "length r < length (dropWhile non_space s)" by (simp add: cr)
  also have "\<dots> \<le> length s" by (rule length_dropWhile_le)
  finally show "(dropWhile is_space (dropWhile non_space s), s) \<in> measure length"
    by (simp add: cr)
qed

declare js_split_ws.simps [simp del]

text \<open>The memoised \<^verbatim>\<open>words\<close> of the component.\<close>

definition words :: "jsstring \<Rightarrow> jsstring list" where
  "words content = js_split_ws content"

text \<open>
  \<^verbatim>\<open>words.map((w, idx) => (/\S/.test(w) ? idx : -1)).filter((idx) => idx !== -1)\<close>
\<close>

definition wordIndices :: "jsstring list \<Rightarrow> int list" where
  "wordIndices ws =
     filter (\<lambda>idx. idx \<noteq> - 1)
       (map (\<lambda>(idx, w). if test_S w then int idx else - 1) (enumerate 0 ws))"

definition totalWords :: "jsstring list \<Rightarrow> int" where
  "totalWords ws = int (length (wordIndices ws))"

text \<open>
  \<^verbatim>\<open>Array.prototype.indexOf\<close>: the index of the first element strictly equal to the
  argument, scanning from index 0, and \<open>-1\<close> when there is none.
\<close>

fun indexOf_from :: "int \<Rightarrow> int list \<Rightarrow> int \<Rightarrow> int" where
  "indexOf_from k [] v = - 1"
| "indexOf_from k (x # xs) v = (if x = v then k else indexOf_from (k + 1) xs v)"

definition indexOf :: "int list \<Rightarrow> int \<Rightarrow> int" where
  "indexOf xs v = indexOf_from 0 xs v"

text \<open>The two kinds of segment the specification speaks of.\<close>

definition is_word_seg :: "jsstring \<Rightarrow> bool" where
  "is_word_seg w \<longleftrightarrow> w \<noteq> [] \<and> list_all non_space w"

definition is_separator_seg :: "jsstring \<Rightarrow> bool" where
  "is_separator_seg w \<longleftrightarrow> w \<noteq> [] \<and> list_all is_space w"

definition segment_ok :: "jsstring \<Rightarrow> bool" where
  "segment_ok w \<longleftrightarrow> is_word_seg w \<or> is_separator_seg w"

section \<open>Numbers\<close>

text \<open>
  A JavaScript number is an IEEE 754 binary64 value. Counts and millisecond time stamps
  are integers far below \<open>2^53\<close>, which binary64 holds exactly, so they are modelled by
  \<open>int\<close>. A number that comes out of a division or a multiplication is modelled by
  \<open>jsnum\<close>: NaN, the two infinities, or the rational value of a finite double. The sign
  of zero is not kept.
\<close>

datatype jsnum = NaN | PosInfinity | NegInfinity | Num rat

text \<open>Rounding to the nearest integer, a tie going to the even one.\<close>

definition round_half_even :: "rat \<Rightarrow> int" where
  "round_half_even q =
     (let f = \<lfloor>q\<rfloor>; d = q - of_int f
      in if d < 1 / 2 then f else if 1 / 2 < d then f + 1 else if even f then f else f + 1)"

definition pow2 :: "int \<Rightarrow> rat" where
  "pow2 k = (if 0 \<le> k then 2 ^ nat k else 1 / 2 ^ nat (- k))"

text \<open>For \<open>q > 0\<close>, the \<open>e\<close> with \<open>2^e \<le> q < 2^(e+1)\<close>.\<close>

definition binary_exponent :: "rat \<Rightarrow> int" where
  "binary_exponent q =
     (let e = bitlen (fst (quotient_of q)) - bitlen (snd (quotient_of q))
      in if pow2 e \<le> q then e else e - 1)"

text \<open>
  The binary64 value nearest to a rational (round to nearest, ties to even): 53
  significant bits in the normal range, multiples of \<open>2^-1074\<close> below \<open>2^-1022\<close>, and an
  infinity when the rounded value reaches \<open>2^1024\<close>. Every arithmetic operation of
  IEEE 754 returns the exact result rounded in this way.
\<close>

definition to_double :: "rat \<Rightarrow> jsnum" where
  "to_double q =
     (if q = 0 then Num 0
      else let a = \<bar>q\<bar>;
               e = binary_exponent a;
               k = max e (- 1022) - 52;
               m = round_half_even (a / pow2 k)
           in if 1024 \<le> e \<or> (e = 1023 \<and> m = 9007199254740992)
              then (if 0 < q then PosInfinity else NegInfinity)
              else Num ((if 0 < q then 1 else - 1) * of_int m * pow2 k))"

text \<open>\<^verbatim>\<open>x / y\<close>\<close>

definition js_div :: "jsnum \<Rightarrow> jsnum \<Rightarrow> jsnum" where
  "js_div x y =
     (case (x, y) of
        (Num a, Num b) \<Rightarrow>
          (if b = 0 then (if a = 0 then NaN else if 0 < a then PosInfinity else NegInfinity)
           else to_double (a / b))
      | (Num a, PosInfinity) \<Rightarrow> Num 0
      | (Num a, NegInfinity) \<Rightarrow> Num 0
      | (PosInfinity, Num b) \<Rightarrow> (if 0 \<le> b then PosInfinity else NegInfinity)
      | (NegInfinity, Num b) \<Rightarrow> (if 0 \<le> b then NegInfinity else PosInfinity)
      | _ \<Rightarrow> NaN)"

text \<open>\<^verbatim>\<open>x * y\<close>\<close>

definition js_mul :: "jsnum \<Rightarrow> jsnum \<Rightarrow> jsnum" where
  "js_mul x y =
     (case (x, y) of
        (Num a, Num b) \<Rightarrow> to_double (a * b)
      | (Num a, PosInfinity) \<Rightarrow>
          (if a = 0 then NaN else if 0 < a then PosInfinity else NegInfinity)
      | (Num a, NegInfinity) \<Rightarrow>
          (if a = 0 then NaN else if 0 < a then NegInfinity else PosInfinity)
      | (PosInfinity, Num b) \<Rightarrow>
          (if b = 0 then NaN else if 0 < b then PosInfinity else NegInfinity)
      | (NegInfinity, Num b) \<Rightarrow>
          (if b = 0 then NaN else if 0 < b then NegInfinity else PosInfinity)
      | (PosInfinity, PosInfinity) \<Rightarrow> PosInfinity
      | (NegInfinity, NegInfinity) \<Rightarrow> PosInfinity
      | (PosInfinity, NegInfinity) \<Rightarrow> NegInfinity
      | (NegInfinity, PosInfinity) \<Rightarrow> NegInfinity
      | _ \<Rightarrow> NaN)"


text \<open>
  \<^verbatim>\<open>Math.round\<close> on a finite number: the nearest integer, a tie going up. It is computed
  without rounding error, and its result is a double whenever its argument is.
\<close>

definition Math_round_rat :: "rat \<Rightarrow> int" where
  "Math_round_rat q = \<lfloor>q + 1 / 2\<rfloor>"

text \<open>\<^verbatim>\<open>Math.round\<close>: NaN and the infinities are returned as they are.\<close>

definition Math_round :: "jsnum \<Rightarrow> jsnum" where
  "Math_round x = (case x of Num q \<Rightarrow> Num (of_int (Math_round_rat q)) | other \<Rightarrow> other)"

section \<open>The state of a mounted Memorizer\<close>

text \<open>
  The component's state hooks and refs, together with the part of the browser they
  act on: the clock read by \<^verbatim>\<open>Date.now()\<close> (milliseconds) and the pool of pending
  timers. \<^verbatim>\<open>setTimeout\<close> and \<^verbatim>\<open>setInterval\<close> draw their ids from one pool, and
  \<^verbatim>\<open>clearTimeout\<close> and \<^verbatim>\<open>clearInterval\<close> both clear whatever timer has the id.
  The callbacks of the component are of two kinds only, so a pending timer is its id,
  the time it is due and its kind. \<open>peekCleanup\<close> is the cleanup function React keeps
  for the effect on \<^verbatim>\<open>[peekIndex]\<close>: the id its \<^verbatim>\<open>clearTimeout\<close> closes over.

  \<open>blackedOutCount\<close> is the constant of that name in the last render: the value that
  \<^verbatim>\<open>isWordBlackedOut\<close>, the markup and the guards of \<^verbatim>\<open>nextStep\<close> and \<^verbatim>\<open>prevStep\<close>
  read. \<open>pendingCount\<close> is the state React holds for it, which the updaters
  \<^verbatim>\<open>(prev) => prev + 1\<close> and \<^verbatim>\<open>(prev) => prev - 1\<close> read and write; the next render
  makes it the new \<open>blackedOutCount\<close>. \<open>elapsed\<close> holds the exact quotient of which the
  component's number is the nearest double.
\<close>

datatype timer_kind = PeekExpiry | ElapsedTick

type_synonym timer = "nat \<times> int \<times> timer_kind"

record session =
  content :: jsstring
  blackedOutCount :: int
  pendingCount :: int
  peekIndex :: "int option"
  isTiming :: bool
  elapsed :: rat
  startTimeRef :: int
  timerIntervalRef :: nat
  peekCleanup :: "nat option"
  clock :: int
  timers :: "timer list"
  nextTimerId :: nat

definition timer_id :: "timer \<Rightarrow> nat" where
  "timer_id t = fst t"

definition timer_due :: "timer \<Rightarrow> int" where
  "timer_due t = fst (snd t)"

definition timer_kind_of :: "timer \<Rightarrow> timer_kind" where
  "timer_kind_of t = snd (snd t)"

text \<open>The first render of a script at time \<open>t0\<close>; timer ids start at 1.\<close>

definition mount :: "jsstring \<Rightarrow> int \<Rightarrow> session" where
  "mount c t0 =
     \<lparr>content = c, blackedOutCount = 0, pendingCount = 0, peekIndex = None,
      isTiming = False, elapsed = 0,
      startTimeRef = 0, timerIntervalRef = 0, peekCleanup = None, clock = t0,
      timers = [], nextTimerId = 1\<rparr>"

definition clearTimer :: "nat \<Rightarrow> session \<Rightarrow> session" where
  "clearTimer i s = s\<lparr>timers := filter (\<lambda>t. timer_id t \<noteq> i) (timers s)\<rparr>"

definition setTimer :: "timer_kind \<Rightarrow> int \<Rightarrow> session \<Rightarrow> session" where
  "setTimer k delay s =
     s\<lparr>timers := timers s @ [(nextTimerId s, clock s + delay, k)],
       nextTimerId := Suc (nextTimerId s)\<rparr>"

text \<open>
  The effect on \<^verbatim>\<open>[peekIndex]\<close>, run after a render in which \<^verbatim>\<open>peekIndex\<close> has changed:
  first the cleanup left by its previous run (\<^verbatim>\<open>clearTimeout(timer)\<close>), then its body,
  which arms a 600 ms timeout when \<^verbatim>\<open>peekIndex !== null\<close> and returns the new cleanup.
\<close>

definition peekEffect :: "session \<Rightarrow> session" where
  "peekEffect s =
     (let s1 = (case peekCleanup s of None \<Rightarrow> s | Some t \<Rightarrow> clearTimer t s)
      in case peekIndex s1 of
           None \<Rightarrow> s1\<lparr>peekCleanup := None\<rparr>
         | Some _ \<Rightarrow> (setTimer PeekExpiry 600 s1)\<lparr>peekCleanup := Some (nextTimerId s1)\<rparr>)"

text \<open>
  \<^verbatim>\<open>setPeekIndex(v)\<close>: setting the value the state already has re-runs nothing; a new
  value is rendered and the effect that depends on it runs.
\<close>

definition setPeekIndex :: "int option \<Rightarrow> session \<Rightarrow> session" where
  "setPeekIndex v s = (if peekIndex s = v then s else peekEffect (s\<lparr>peekIndex := v\<rparr>))"

definition toggleTimer :: "session \<Rightarrow> session" where
  "toggleTimer s =
     (if isTiming s then (clearTimer (timerIntervalRef s) s)\<lparr>isTiming := False\<rparr>
      else (setTimer ElapsedTick 100 (s\<lparr>elapsed := 0, isTiming := True, startTimeRef := clock s\<rparr>))
             \<lparr>timerIntervalRef := nextTimerId s\<rparr>)"

text \<open>
  \<^verbatim>\<open>if (blackedOutCount < totalWords) setBlackedOutCount((prev) => prev + 1)\<close>: the guard
  reads the render's constant, the updater the pending state.
\<close>

definition nextStep :: "session \<Rightarrow> session" where
  "nextStep s =
     (if blackedOutCount s < totalWords (words (content s))
      then s\<lparr>pendingCount := pendingCount s + 1\<rparr> else s)"

text \<open>\<^verbatim>\<open>if (blackedOutCount > 0) setBlackedOutCount((prev) => prev - 1)\<close>\<close>

definition prevStep :: "session \<Rightarrow> session" where
  "prevStep s =
     (if blackedOutCount s > 0 then s\<lparr>pendingCount := pendingCount s - 1\<rparr> else s)"

text \<open>A render: the pending count becomes the constant that the next handlers close over.\<close>

definition render :: "session \<Rightarrow> session" where
  "render s = s\<lparr>blackedOutCount := pendingCount s\<rparr>"

text \<open>\<^verbatim>\<open>reset\<close>; the argument is the answer of \<^verbatim>\<open>window.confirm\<close>.\<close>

definition reset :: "bool \<Rightarrow> session \<Rightarrow> session" where
  "reset confirmed s = (if confirmed then s\<lparr>pendingCount := 0\<rparr> else s)"

definition isWordBlackedOut :: "session \<Rightarrow> int \<Rightarrow> bool" where
  "isWordBlackedOut s indexInWords =
     (let actualWordIndex = indexOf (wordIndices (words (content s))) indexInWords
      in actualWordIndex \<noteq> - 1 \<and> actualWordIndex < blackedOutCount s)"


text \<open>The click handler of the span of segment \<open>idx\<close>: \<^verbatim>\<open>if (blacked) setPeekIndex(idx)\<close>.\<close>

definition onClick :: "int \<Rightarrow> session \<Rightarrow> session" where
  "onClick idx s = (if isWordBlackedOut s idx then setPeekIndex (Some idx) s else s)"

text \<open>\<^verbatim>\<open>Math.round((blackedOutCount / totalWords) * 100)\<close>\<close>

definition progressPercentage :: "session \<Rightarrow> jsnum" where
  "progressPercentage s =
     Math_round
       (js_mul (js_div (Num (of_int (blackedOutCount s)))
                       (Num (of_int (totalWords (words (content s))))))
               (Num 100))"



record feedback =
  label :: string
  desc :: string
  color :: string
  bg :: string
  border :: string

definition getSpeedFeedback :: "int \<Rightarrow> feedback" where
  "getSpeedFeedback w =
     (if w < 135 then
        \<lparr>label = ''TOO SLOW'', desc = ''Trust goes down.'', color = ''text-orange-400'',
         bg = ''bg-orange-500/10'', border = ''border-orange-500/20''\<rparr>
      else if w > 185 then
        \<lparr>label = ''TOO FAST'', desc = ''Trust goes down.'', color = ''text-red-400'',
         bg = ''bg-red-500/10'', border = ''border-red-500/20''\<rparr>
      else
        \<lparr>label = ''SWEET SPOT'', desc = ''High authority.'', color = ''text-green-400'',
         bg = ''bg-green-500/10'', border = ''border-green-500/20''\<rparr>)"

section \<open>Timers firing, and the events of a session\<close>

text \<open>
  A pending timer that is due runs its callback. The timeout of a peek is spent and
  calls \<^verbatim>\<open>setPeekIndex(null)\<close>; the interval of the stopwatch is due again 100 ms later
  and calls \<^verbatim>\<open>setElapsed((Date.now() - startTimeRef.current) / 1000)\<close>.
\<close>

definition fire :: "timer \<Rightarrow> session \<Rightarrow> session" where
  "fire t s =
     (if t \<in> set (timers s) \<and> timer_due t \<le> clock s then
        (case timer_kind_of t of
           PeekExpiry \<Rightarrow> setPeekIndex None (clearTimer (timer_id t) s)
         | ElapsedTick \<Rightarrow>
             s\<lparr>timers := map (\<lambda>u. if timer_id u = timer_id t
                                   then (timer_id u, timer_due u + 100, timer_kind_of u) else u)
                            (timers s),
               elapsed := of_int (clock s - startTimeRef s) / 1000\<rparr>)
      else s)"

text \<open>
  One millisecond passes: the clock moves on, and the timers that were pending are
  looked at in the order they were armed; those due (and still pending) fire.
\<close>

definition tick :: "session \<Rightarrow> session" where
  "tick s = foldl (\<lambda>s' t. fire t s') (s\<lparr>clock := clock s + 1\<rparr>) (timers s)"

text \<open>
  What can happen to a mounted component: a call of one of its handlers, a millisecond
  passing, and a render. React renders after the handlers of an event have run, so
  handler calls with no \<open>Render\<close> between them are calls made within one render.
\<close>

datatype event =
  NextStep | PrevStep | Reset bool | ClickWord int | ToggleTimer | Tick | Render

fun step :: "event \<Rightarrow> session \<Rightarrow> session" where
  "step NextStep s = nextStep s"
| "step PrevStep s = prevStep s"
| "step (Reset b) s = reset b s"
| "step (ClickWord idx) s = onClick idx s"
| "step ToggleTimer s = toggleTimer s"
| "step Tick s = tick s"
| "step Render s = render s"

definition run :: "event list \<Rightarrow> session \<Rightarrow> session" where
  "run es s = foldl (\<lambda>s' e. step e s') s es"




section \<open>Invariants of a session\<close>

text \<open>
  What holds of the timer pool in every state a session can reach: ids are unique and
  older than the next id, and nothing pending is overdue; a timeout of the kind armed by
  the peek effect is pending exactly while a peek is shown, is the one the effect's
  cleanup names and is due within 600 ms; an interval of the stopwatch is pending exactly
  while it runs, is the one \<open>timerIntervalRef\<close> names, is due at a multiple of 100 ms
  after the start, and \<open>elapsed\<close> is the value its last firing has stored.
\<close>

definition timers_wf :: "session \<Rightarrow> bool" where
  "timers_wf s \<longleftrightarrow>
     distinct (map timer_id (timers s)) \<and>
     (\<forall>t \<in> set (timers s). timer_id t < nextTimerId s \<and> clock s \<le> timer_due t)"

definition peek_inv :: "session \<Rightarrow> bool" where
  "peek_inv s \<longleftrightarrow>
     (\<forall>t \<in> set (timers s). timer_kind_of t = PeekExpiry \<longrightarrow>
        peekCleanup s = Some (timer_id t) \<and> timer_due t \<le> clock s + 600) \<and>
     (peekIndex s = None \<longleftrightarrow> peekCleanup s = None) \<and>
     (\<forall>i. peekCleanup s = Some i \<longrightarrow>
        (\<exists>t \<in> set (timers s). timer_id t = i \<and> timer_kind_of t = PeekExpiry))"

definition timing_inv :: "session \<Rightarrow> bool" where
  "timing_inv s \<longleftrightarrow>
     (\<forall>t \<in> set (timers s). timer_kind_of t = ElapsedTick \<longrightarrow>
        isTiming s \<and> timer_id t = timerIntervalRef s \<and>
        timer_due t - 100 \<le> clock s \<and> startTimeRef s < timer_due t \<and>
        (timer_due t - startTimeRef s) mod 100 = 0 \<and>
        elapsed s = of_int (timer_due t - 100 - startTimeRef s) / 1000) \<and>
     (isTiming s \<longrightarrow>
        (\<exists>t \<in> set (timers s). timer_id t = timerIntervalRef s \<and> timer_kind_of t = ElapsedTick))"

definition inv_core :: "session \<Rightarrow> bool" where
  "inv_core s \<longleftrightarrow> timers_wf s \<and> peek_inv s \<and> timing_inv s"



text \<open>The interval timer \<open>t\<close> after it has fired: due again 100 ms later.\<close>

definition bump :: "timer \<Rightarrow> timer \<Rightarrow> timer" where
  "bump t u = (if timer_id u = timer_id t then (timer_id u, timer_due u + 100, timer_kind_of u) else u)"

section \<open>Round trip of the tokenizer\<close>

lemma js_split_ws_last:
  "dropWhile non_space s = [] \<Longrightarrow> js_split_ws s = [takeWhile non_space s]"
  by (subst js_split_ws.simps) (simp only: simp_thms if_True)

lemma js_split_ws_step:
  "dropWhile non_space s \<noteq> [] \<Longrightarrow>
   js_split_ws s = takeWhile non_space s # takeWhile is_space (dropWhile non_space s)
                     # js_split_ws (dropWhile is_space (dropWhile non_space s))"
  by (subst js_split_ws.simps) (simp only: simp_thms if_False)

text \<open>
  C1. For every input string, concatenating the segments of the split in order gives
  the input string back; this covers the empty string and strings with leading,
  trailing or repeated whitespace, since the statement has no side condition.
\<close>

theorem words_concat_roundtrip: "concat (words s) = s"
  unfolding words_def
proof (induction s rule: js_split_ws.induct)
  case (1 s)
  show ?case
  proof (cases "dropWhile non_space s = []")
    case True
    then have "takeWhile non_space s = s"
      by (metis append_Nil2 takeWhile_dropWhile_id)
    with True show ?thesis by (simp add: js_split_ws_last)
  next
    case False
    have "concat (js_split_ws s) =
          takeWhile non_space s @ takeWhile is_space (dropWhile non_space s)
            @ concat (js_split_ws (dropWhile is_space (dropWhile non_space s)))"
      by (simp only: js_split_ws_step [OF False] concat.simps)
    also have "\<dots> = takeWhile non_space s @ takeWhile is_space (dropWhile non_space s)
            @ dropWhile is_space (dropWhile non_space s)"
      by (simp only: "1.IH" [OF False])
    also have "\<dots> = s" by (simp only: takeWhile_dropWhile_id)
    finally show ?thesis .
  qed
qed

section \<open>The kinds of segment\<close>

lemma is_space_examples:
  "is_space 0x20" "\<not> is_space 0x61" "non_space 0x61" "\<not> non_space 0x20"
  by (simp_all add: is_space_def non_space_def)

lemma words_sp_a: "words [0x20, 0x61] = [[], [0x20], [0x61]]"
  by (simp add: words_def js_split_ws.simps is_space_examples)

lemma js_split_ws_nth0: "js_split_ws s \<noteq> [] \<and> js_split_ws s ! 0 = takeWhile non_space s"
  by (cases "dropWhile non_space s = []") (simp_all add: js_split_ws_last js_split_ws_step)

lemma word_run: "list_all non_space (takeWhile non_space s)"
  by (simp add: list_all_iff) (meson set_takeWhileD)

lemma sep_run:
  assumes "dropWhile non_space s \<noteq> []"
  shows "is_separator_seg (takeWhile is_space (dropWhile non_space s))"
proof -
  from assms have "\<not> non_space (hd (dropWhile non_space s))" by (rule hd_dropWhile)
  then have "is_space (hd (dropWhile non_space s))" by (simp add: non_space_def)
  with assms have "takeWhile is_space (dropWhile non_space s) \<noteq> []"
    by (cases "dropWhile non_space s") auto
  moreover have "list_all is_space (takeWhile is_space (dropWhile non_space s))"
    by (simp add: list_all_iff) (meson set_takeWhileD)
  ultimately show ?thesis by (simp add: is_separator_seg_def)
qed

text \<open>Segments at even positions hold no whitespace; those at odd positions are
  non-empty runs of whitespace.\<close>

lemma js_split_ws_kinds:
  "i < length (js_split_ws s) \<Longrightarrow>
     (even i \<longrightarrow> list_all non_space (js_split_ws s ! i)) \<and>
     (odd i \<longrightarrow> is_separator_seg (js_split_ws s ! i))"
proof (induction s arbitrary: i rule: js_split_ws.induct)
  case (1 s)
  show ?case
  proof (cases "dropWhile non_space s = []")
    case True
    with "1.prems" show ?thesis by (simp add: js_split_ws_last word_run)
  next
    case False
    note st = js_split_ws_step [OF False]
    consider "i = 0" | "i = 1" | "2 \<le> i" by linarith
    then show ?thesis
    proof cases
      case 1 then show ?thesis by (simp add: st word_run)
    next
      case 2 then show ?thesis by (simp add: st sep_run [OF False])
    next
      case 3
      then obtain j where j: "i = Suc (Suc j)"
        by (metis Suc_le_D Suc_1 Suc_le_mono add_2_eq_Suc le_Suc_ex)
      with "1.prems" have "j < length (js_split_ws (dropWhile is_space (dropWhile non_space s)))"
        by (simp add: st)
      from "1.IH" [OF False this] show ?thesis by (simp add: st j)
    qed
  qed
qed

text \<open>Only the first and the last segment can be empty.\<close>

lemma js_split_ws_interior:
  "0 < i \<Longrightarrow> Suc i < length (js_split_ws s) \<Longrightarrow> js_split_ws s ! i \<noteq> []"
proof (induction s arbitrary: i rule: js_split_ws.induct)
  case (1 s)
  show ?case
  proof (cases "dropWhile non_space s = []")
    case True
    with "1.prems" show ?thesis by (simp add: js_split_ws_last)
  next
    case False
    note st = js_split_ws_step [OF False]
    let ?r = "dropWhile is_space (dropWhile non_space s)"
    consider "i = 1" | "i = 2" | "3 \<le> i" using "1.prems" by linarith
    then show ?thesis
    proof cases
      case 1
      then show ?thesis
        using sep_run [OF False] by (simp add: st is_separator_seg_def)
    next
      case 2
      with "1.prems" have len: "1 < length (js_split_ws ?r)" by (simp add: st)
      have ne: "dropWhile non_space ?r \<noteq> []"
      proof
        assume "dropWhile non_space ?r = []"
        from js_split_ws_last [OF this] len show False by simp
      qed
      then have "?r \<noteq> []" by (metis dropWhile.simps(1))
      then have "\<not> is_space (hd ?r)" by (rule hd_dropWhile)
      with \<open>?r \<noteq> []\<close> have "takeWhile non_space ?r \<noteq> []"
        by (cases ?r) (auto simp: non_space_def)
      moreover have "js_split_ws s ! i = js_split_ws ?r ! 0"
        by (simp add: st 2)
      ultimately show ?thesis using js_split_ws_nth0 [of ?r] by simp
    next
      case 3
      then obtain j where j: "i = Suc (Suc j)" "0 < j"
        by (metis Suc_le_D Suc_le_mono numeral_3_eq_3 zero_less_Suc less_le_trans)
      with "1.prems" have "Suc j < length (js_split_ws ?r)"
        by (simp add: st)
      from "1.IH" [OF False j(2) this] show ?thesis by (simp add: st j)
    qed
  qed
qed

lemma test_S_word: "list_all non_space w \<Longrightarrow> test_S w \<longleftrightarrow> is_word_seg w"
  by (cases w) (auto simp: test_S_def is_word_seg_def)

lemma test_S_separator: "is_separator_seg w \<Longrightarrow> \<not> test_S w \<and> \<not> is_word_seg w"
  by (cases w)
     (auto simp: test_S_def is_word_seg_def is_separator_seg_def non_space_def
                 list_all_iff list_ex_iff)

text \<open>
  C9, as stated, fails: every segment of the split would be a non-empty word or a
  non-empty separator. The split of \<^verbatim>\<open>" a"\<close> starts with the empty string, which is
  neither.
\<close>

theorem words_segment_nonempty_counterexample:
  "\<not> list_all segment_ok (words [0x20, 0x61])"
  by (simp add: words_sp_a segment_ok_def is_word_seg_def is_separator_seg_def)

text \<open>
  C9, amended. Every segment of the split is a word (non-empty, no whitespace), a
  separator (non-empty, whitespace only) or the empty string; the empty string occurs
  only as the first or the last segment; segments at even positions hold no whitespace
  and segments at odd positions are separators; and the test \<^verbatim>\<open>/\S/.test\<close> that the
  component uses to pick the words holds exactly of the word segments.
\<close>

theorem words_segment_kinds:
  "i < length (words s) \<Longrightarrow>
     (words s ! i = [] \<or> is_word_seg (words s ! i) \<or> is_separator_seg (words s ! i)) \<and>
     (words s ! i = [] \<longrightarrow> i = 0 \<or> Suc i = length (words s)) \<and>
     (even i \<longrightarrow> list_all non_space (words s ! i)) \<and>
     (odd i \<longrightarrow> is_separator_seg (words s ! i)) \<and>
     (test_S (words s ! i) \<longleftrightarrow> is_word_seg (words s ! i))"
proof -
  assume i: "i < length (words s)"
  let ?w = "words s ! i"
  have k: "(even i \<longrightarrow> list_all non_space ?w) \<and> (odd i \<longrightarrow> is_separator_seg ?w)"
    using js_split_ws_kinds [of i s] i by (simp add: words_def)
  have e: "?w = [] \<longrightarrow> i = 0 \<or> Suc i = length (words s)"
  proof (cases "0 < i \<and> Suc i < length (words s)")
    case True
    then have "?w \<noteq> []"
      using js_split_ws_interior [of i s] by (simp add: words_def)
    then show ?thesis by simp
  next
    case False
    with i show ?thesis by auto
  qed
  have t: "test_S ?w \<longleftrightarrow> is_word_seg ?w"
    using k test_S_word [of ?w] test_S_separator [of ?w] by (cases "even i") auto
  have "?w = [] \<or> is_word_seg ?w \<or> is_separator_seg ?w"
    using k by (cases "even i") (auto simp: is_word_seg_def)
  with k e t show ?thesis by blast
qed

theorem words_segment_kinds_witness:
  "(0::nat) < length (words [0x20, 0x61]) \<and> words [0x20, 0x61] ! 0 = [] \<and>
   \<not> test_S (words [0x20, 0x61] ! 0) \<and> \<not> is_word_seg (words [0x20, 0x61] ! 0)"
  using words_segment_kinds [of 0 "[0x20, 0x61]"]
  by (simp add: words_sp_a is_word_seg_def)

section \<open>Word indices and the hiddenness test\<close>

lemma wordIndices_enum:
  "filter (\<lambda>idx. idx \<noteq> - 1)
       (map (\<lambda>(idx, w). if test_S w then int idx else - 1) (enumerate n ws))
   = map (\<lambda>p. int (fst p)) (filter (\<lambda>p. test_S (snd p)) (enumerate n ws))"
  by (induction ws arbitrary: n) auto

lemma wordIndices_alt:
  "wordIndices ws = map (\<lambda>p. int (fst p)) (filter (\<lambda>p. test_S (snd p)) (enumerate 0 ws))"
  by (simp add: wordIndices_def wordIndices_enum)

lemma wordIndices_distinct: "distinct (wordIndices ws)"
proof -
  have "distinct (map fst (filter (\<lambda>p. test_S (snd p)) (enumerate 0 ws)))"
    by (rule distinct_map_filter) simp
  then have "distinct (map int (map fst (filter (\<lambda>p. test_S (snd p)) (enumerate 0 ws))))"
    by (simp add: distinct_map inj_on_def)
  then show ?thesis by (simp add: wordIndices_alt comp_def)
qed

lemma wordIndices_set:
  "set (wordIndices ws) = {int i | i. i < length ws \<and> test_S (ws ! i)}"
  by (auto simp: wordIndices_alt in_set_enumerate_eq image_iff)

lemma indexOf_from_absent: "v \<notin> set xs \<Longrightarrow> indexOf_from k xs v = - 1"
  by (induction xs arbitrary: k) auto

lemma indexOf_from_nth:
  "distinct xs \<Longrightarrow> r < length xs \<Longrightarrow> indexOf_from k xs (xs ! r) = k + int r"
proof (induction xs arbitrary: k r)
  case Nil
  then show ?case by simp
next
  case (Cons x xs)
  show ?case
  proof (cases r)
    case 0
    then show ?thesis by simp
  next
    case (Suc r')
    with Cons.prems have "xs ! r' \<in> set xs" "x \<notin> set xs" "r' < length xs" by auto
    then have "x \<noteq> xs ! r'" by auto
    with Cons.IH [of r' "k + 1"] Cons.prems Suc show ?thesis by simp
  qed
qed


lemma wordIndices_sorted: "sorted_wrt (<) (wordIndices ws)"
proof -
  have "sorted_wrt (<) (map fst (enumerate 0 ws))" by (simp add: map_fst_enumerate)
  then have "sorted_wrt (\<lambda>p q. fst p < fst q) (enumerate 0 ws)"
    unfolding sorted_wrt_map .
  then have "sorted_wrt (\<lambda>p q. fst p < fst q) (filter (\<lambda>p. test_S (snd p)) (enumerate 0 ws))"
    by (rule sorted_wrt_filter)
  then show ?thesis by (simp add: wordIndices_alt sorted_wrt_map)
qed

lemma words_a_b: "words [0x61, 0x20, 0x62] = [[0x61], [0x20], [0x62]]"
  by (simp add: words_def js_split_ws.simps is_space_def non_space_def)

lemma wordIndices_a_b: "wordIndices (words [0x61, 0x20, 0x62]) = [0, 2]"
  by (simp add: words_a_b wordIndices_def test_S_def is_space_def non_space_def)

text \<open>
  C5. The word of rank \<open>r\<close> is the segment whose index is \<open>wordIndices ! r\<close>. For every
  rank below the number of words and every value of \<open>blackedOutCount\<close>,
  \<open>isWordBlackedOut\<close> at that index is true exactly when \<open>r < blackedOutCount\<close>; at
  any argument that is not the index of a word it returns false. The indices of words
  are the positions of the segments that pass \<^verbatim>\<open>/\S/.test\<close>.
\<close>

theorem isWordBlackedOut_rank:
  "(r < length (wordIndices (words (content s))) \<longrightarrow>
      isWordBlackedOut s (wordIndices (words (content s)) ! r) = (int r < blackedOutCount s)) \<and>
   (i \<notin> set (wordIndices (words (content s))) \<longrightarrow> isWordBlackedOut s i = False) \<and>
   (i \<in> set (wordIndices (words (content s))) \<longleftrightarrow>
      0 \<le> i \<and> nat i < length (words (content s)) \<and> test_S (words (content s) ! nat i))"
proof -
  have "i \<in> set (wordIndices (words (content s))) \<longleftrightarrow>
      0 \<le> i \<and> nat i < length (words (content s)) \<and> test_S (words (content s) ! nat i)"
    by (auto simp: wordIndices_set intro!: exI [of _ "nat i"])
  then show ?thesis
    by (simp add: isWordBlackedOut_def indexOf_def indexOf_from_absent
        indexOf_from_nth [OF wordIndices_distinct])
qed

theorem isWordBlackedOut_rank_witness:
  "0 < length (wordIndices (words (content ((mount [0x61, 0x20, 0x62] 0)\<lparr>blackedOutCount := 1\<rparr>)))) \<and>
   isWordBlackedOut ((mount [0x61, 0x20, 0x62] 0)\<lparr>blackedOutCount := 1\<rparr>) 0 \<and>
   1 \<notin> set (wordIndices (words (content ((mount [0x61, 0x20, 0x62] 0)\<lparr>blackedOutCount := 1\<rparr>)))) \<and>
   \<not> isWordBlackedOut ((mount [0x61, 0x20, 0x62] 0)\<lparr>blackedOutCount := 1\<rparr>) 1"
  using isWordBlackedOut_rank [of 0 "(mount [0x61, 0x20, 0x62] 0)\<lparr>blackedOutCount := 1\<rparr>" 1]
  by (simp add: mount_def wordIndices_a_b)

section \<open>Stepping the blackout forward and back\<close>

lemma peekEffect_frame:
  "content (peekEffect s) = content s \<and> blackedOutCount (peekEffect s) = blackedOutCount s \<and>
   pendingCount (peekEffect s) = pendingCount s \<and>
   isTiming (peekEffect s) = isTiming s \<and> elapsed (peekEffect s) = elapsed s \<and>
   startTimeRef (peekEffect s) = startTimeRef s \<and> timerIntervalRef (peekEffect s) = timerIntervalRef s \<and>
   clock (peekEffect s) = clock s \<and> peekIndex (peekEffect s) = peekIndex s"
  by (simp add: peekEffect_def clearTimer_def setTimer_def Let_def split: option.splits)

lemma setPeekIndex_frame:
  "content (setPeekIndex v s) = content s \<and> blackedOutCount (setPeekIndex v s) = blackedOutCount s \<and>
   pendingCount (setPeekIndex v s) = pendingCount s \<and>
   isTiming (setPeekIndex v s) = isTiming s \<and> elapsed (setPeekIndex v s) = elapsed s \<and>
   startTimeRef (setPeekIndex v s) = startTimeRef s \<and>
   timerIntervalRef (setPeekIndex v s) = timerIntervalRef s \<and>
   clock (setPeekIndex v s) = clock s \<and> peekIndex (setPeekIndex v s) = v"
  by (simp add: setPeekIndex_def peekEffect_frame)

lemma fire_frame:
  "content (fire t s) = content s \<and> blackedOutCount (fire t s) = blackedOutCount s \<and>
   pendingCount (fire t s) = pendingCount s \<and>
   isTiming (fire t s) = isTiming s \<and> startTimeRef (fire t s) = startTimeRef s \<and>
   timerIntervalRef (fire t s) = timerIntervalRef s \<and> clock (fire t s) = clock s"
  by (simp add: fire_def setPeekIndex_frame clearTimer_def split: timer_kind.splits)

lemma fire_all_frame:
  "content (foldl (\<lambda>s' t. fire t s') s ts) = content s \<and>
   blackedOutCount (foldl (\<lambda>s' t. fire t s') s ts) = blackedOutCount s \<and>
   pendingCount (foldl (\<lambda>s' t. fire t s') s ts) = pendingCount s \<and>
   isTiming (foldl (\<lambda>s' t. fire t s') s ts) = isTiming s \<and>
   startTimeRef (foldl (\<lambda>s' t. fire t s') s ts) = startTimeRef s \<and>
   timerIntervalRef (foldl (\<lambda>s' t. fire t s') s ts) = timerIntervalRef s \<and>
   clock (foldl (\<lambda>s' t. fire t s') s ts) = clock s"
  by (induction ts arbitrary: s) (simp_all add: fire_frame)

lemma tick_frame:
  "content (tick s) = content s \<and> blackedOutCount (tick s) = blackedOutCount s \<and>
   pendingCount (tick s) = pendingCount s \<and>
   isTiming (tick s) = isTiming s \<and> startTimeRef (tick s) = startTimeRef s \<and>
   timerIntervalRef (tick s) = timerIntervalRef s \<and> clock (tick s) = clock s + 1"
  by (simp add: tick_def fire_all_frame)

lemma toggleTimer_frame:
  "content (toggleTimer s) = content s \<and> blackedOutCount (toggleTimer s) = blackedOutCount s \<and>
   pendingCount (toggleTimer s) = pendingCount s \<and>
   peekIndex (toggleTimer s) = peekIndex s \<and> peekCleanup (toggleTimer s) = peekCleanup s \<and>
   clock (toggleTimer s) = clock s"
  by (simp add: toggleTimer_def clearTimer_def setTimer_def)

lemma run_Nil: "run [] s = s"
  by (simp add: run_def)

lemma run_snoc: "run (es @ [e]) s = step e (run es s)"
  by (simp add: run_def)

lemma run_append: "run (es @ fs) s = run fs (run es s)"
  by (simp add: run_def)

lemma step_content: "content (step e s) = content s"
  by (cases e)
     (simp_all add: nextStep_def prevStep_def reset_def render_def onClick_def
        setPeekIndex_frame toggleTimer_frame tick_frame)

lemma run_content: "content (run es s) = content s"
  by (induction es rule: rev_induct) (simp_all add: run_Nil run_snoc step_content)

lemma run_Cons: "run (e # es) s = run es (step e s)"
  by (simp add: run_def)

lemma totalWords_a_b: "totalWords (words [0x61, 0x20, 0x62]) = 2"
  by (simp add: totalWords_def wordIndices_a_b)

text \<open>
  A handler call made from a render that has seen every earlier update, and rendered
  before the next call, keeps the count within its bounds: this is the course of
  separate clicks.
\<close>

lemma step_render_bounds:
  assumes "pendingCount s = blackedOutCount s"
    and "0 \<le> blackedOutCount s" "blackedOutCount s \<le> totalWords (words (content s))"
  shows "pendingCount (render (step e s)) = blackedOutCount (render (step e s)) \<and>
         0 \<le> blackedOutCount (render (step e s)) \<and>
         blackedOutCount (render (step e s)) \<le> totalWords (words (content s))"
proof (cases e)
  case NextStep
  with assms show ?thesis by (simp add: nextStep_def render_def)
next
  case PrevStep
  with assms show ?thesis by (simp add: prevStep_def render_def)
next
  case (Reset b)
  with assms show ?thesis by (simp add: reset_def render_def totalWords_def)
next
  case (ClickWord i)
  with assms show ?thesis by (simp add: onClick_def render_def setPeekIndex_frame)
next
  case ToggleTimer
  with assms show ?thesis by (simp add: render_def toggleTimer_frame)
next
  case Tick
  with assms show ?thesis by (simp add: render_def tick_frame)
next
  case Render
  with assms show ?thesis by (simp add: render_def)
qed

lemma rendered_steps_clamped:
  "pendingCount (run (concat (map (\<lambda>e. [e, Render]) es)) (mount c t0))
     = blackedOutCount (run (concat (map (\<lambda>e. [e, Render]) es)) (mount c t0)) \<and>
   0 \<le> blackedOutCount (run (concat (map (\<lambda>e. [e, Render]) es)) (mount c t0)) \<and>
   blackedOutCount (run (concat (map (\<lambda>e. [e, Render]) es)) (mount c t0))
     \<le> totalWords (words c)"
proof (induction es rule: rev_induct)
  case Nil
  show ?case by (simp add: run_Nil mount_def totalWords_def)
next
  case (snoc e es)
  let ?s = "run (concat (map (\<lambda>e. [e, Render]) es)) (mount c t0)"
  have c: "content ?s = c" by (simp add: run_content mount_def)
  have r: "run (concat (map (\<lambda>e. [e, Render]) (es @ [e]))) (mount c t0) = render (step e ?s)"
    by (simp add: run_append run_Cons run_Nil)
  from snoc c step_render_bounds [of ?s e] show ?case
    unfolding r by simp
qed

text \<open>
  C4. The claim holds of calls separated by a render, and fails of calls made within one
  render: there the guard of each call reads the same \<open>blackedOutCount\<close> while the
  updaters add up. On the script \<^verbatim>\<open>"a b"\<close> of two words, three calls of \<open>nextStep\<close> from
  the first render leave 3 blacked out; and two calls of \<open>prevStep\<close> from a render that
  shows 1 leave \<open>-1\<close>.
\<close>

theorem nextStep_in_one_render_overshoots:
  "totalWords (words [0x61, 0x20, 0x62]) = 2 \<and>
   blackedOutCount (run [NextStep, NextStep, NextStep, Render] (mount [0x61, 0x20, 0x62] 0)) = 3 \<and>
   blackedOutCount (run [NextStep, Render, PrevStep, PrevStep, Render]
                      (mount [0x61, 0x20, 0x62] 0)) = - 1"
  by (simp add: run_Cons run_Nil nextStep_def prevStep_def render_def mount_def totalWords_a_b)

section \<open>Pace: words per minute and its band\<close>

lemma to_double_examples:
  "to_double (8 / 5) = Num (3602879701896397 / 2251799813685248)"
  "to_double (1 / 10) = Num (3602879701896397 / 36028797018963968)"
  "to_double 184 = Num 184"
  by code_simp+




text \<open>
  C7. The feedback is TOO SLOW exactly below 135, TOO FAST exactly above 185 and
  SWEET SPOT in between, with 134, 135, 185 and 186 on the sides of the two bounds
  that the specification names.
\<close>

theorem getSpeedFeedback_bands:
  "(label (getSpeedFeedback w) = ''TOO SLOW'' \<longleftrightarrow> w < 135) \<and>
   (label (getSpeedFeedback w) = ''TOO FAST'' \<longleftrightarrow> w > 185) \<and>
   (label (getSpeedFeedback w) = ''SWEET SPOT'' \<longleftrightarrow> 135 \<le> w \<and> w \<le> 185) \<and>
   label (getSpeedFeedback 134) = ''TOO SLOW'' \<and>
   label (getSpeedFeedback 135) = ''SWEET SPOT'' \<and>
   label (getSpeedFeedback 185) = ''SWEET SPOT'' \<and>
   label (getSpeedFeedback 186) = ''TOO FAST''"
  by (simp add: getSpeedFeedback_def)

section \<open>Progress percentage\<close>

lemma totalWords_empty: "totalWords (words []) = 0"
  by (simp add: totalWords_def wordIndices_def words_def js_split_ws.simps test_S_def)

text \<open>
  C2. On a script without words \<open>totalWords\<close> is 0 and so is \<open>blackedOutCount\<close>; the
  quotient is \<open>0 / 0\<close> and the percentage shown is NaN, where the specification defines
  0.
\<close>

theorem progressPercentage_empty_NaN:
  "progressPercentage (mount [] 0) = NaN"
  by (simp add: progressPercentage_def mount_def totalWords_empty js_div_def js_mul_def
        Math_round_def)

text \<open>With words to count, the quotient and the product are rounded to binary64.\<close>

lemma progress_examples:
  "Math_round (js_mul (js_div (Num 1) (Num 8)) (Num 100)) = Num 13"
  "Math_round (js_mul (js_div (Num 23) (Num 40)) (Num 100)) = Num 57"
  "Math_round (js_mul (js_div (Num 29) (Num 200)) (Num 100)) = Num 14"
  by code_simp+

section \<open>A peek request changes the peek state only\<close>

text \<open>
  C10. The click handler leaves \<open>blackedOutCount\<close>, the script and its segments, and the
  stopwatch (\<open>isTiming\<close>, \<open>elapsed\<close>, \<open>startTimeRef\<close>) as they are, in every state; and
  \<open>isWordBlackedOut\<close> does not read \<open>peekIndex\<close>, so a peeked word still counts as
  blacked out.
\<close>

theorem onClick_frame:
  "blackedOutCount (onClick idx s) = blackedOutCount s \<and>
   pendingCount (onClick idx s) = pendingCount s \<and>
   content (onClick idx s) = content s \<and>
   words (content (onClick idx s)) = words (content s) \<and>
   isTiming (onClick idx s) = isTiming s \<and>
   elapsed (onClick idx s) = elapsed s \<and>
   startTimeRef (onClick idx s) = startTimeRef s \<and>
   isWordBlackedOut (onClick idx s) j = isWordBlackedOut s j \<and>
   isWordBlackedOut (s\<lparr>peekIndex := p\<rparr>) j = isWordBlackedOut s j"
  by (simp add: onClick_def setPeekIndex_frame isWordBlackedOut_def)

section \<open>The timer pool stays well formed\<close>

lemma timer_proj [simp]:
  "timer_id (i, d, k) = i" "timer_due (i, d, k) = d" "timer_kind_of (i, d, k) = k"
  by (simp_all add: timer_id_def timer_due_def timer_kind_of_def)

lemma timer_eqI: "timer_id t = timer_id u \<Longrightarrow> timer_due t = timer_due u \<Longrightarrow>
  timer_kind_of t = timer_kind_of u \<Longrightarrow> t = u"
  by (cases t, cases u) simp

lemma distinct_id_unique:
  "distinct (map timer_id ts) \<Longrightarrow> t \<in> set ts \<Longrightarrow> u \<in> set ts \<Longrightarrow> timer_id t = timer_id u \<Longrightarrow> t = u"
  by (meson distinct_map inj_onD)







lemma setPeekIndex_None_fields:
  assumes "peekIndex s \<noteq> None"
  shows "timers (setPeekIndex None s) =
           filter (\<lambda>t. Some (timer_id t) \<noteq> peekCleanup s) (timers s)"
    and "peekCleanup (setPeekIndex None s) = None"
    and "nextTimerId (setPeekIndex None s) = nextTimerId s"
  using assms
  by (auto simp: setPeekIndex_def peekEffect_def clearTimer_def setTimer_def Let_def
        split: option.splits)

lemma setPeekIndex_same: "peekIndex s = v \<Longrightarrow> setPeekIndex v s = s"
  by (simp add: setPeekIndex_def)



lemma peek_timer_cleanup:
  "peek_inv s \<Longrightarrow> t \<in> set (timers s) \<Longrightarrow> timer_kind_of t = PeekExpiry \<Longrightarrow>
   peekCleanup s = Some (timer_id t)"
  by (simp add: peek_inv_def)

lemma tick_timer_not_cleanup:
  assumes "timers_wf s" "peek_inv s" "t \<in> set (timers s)" "timer_kind_of t = ElapsedTick"
  shows "Some (timer_id t) \<noteq> peekCleanup s"
proof
  assume "Some (timer_id t) = peekCleanup s"
  then have "peekCleanup s = Some (timer_id t)" by simp
  with assms(2) obtain u where u: "u \<in> set (timers s)" "timer_id u = timer_id t"
      "timer_kind_of u = PeekExpiry"
    by (auto simp: peek_inv_def)
  with assms(1,3) have "u = t"
    by (auto simp: timers_wf_def intro: distinct_id_unique)
  with u(3) assms(4) show False by simp
qed


lemma timing_inv_frame:
  assumes "timing_inv s"
    and "isTiming s' = isTiming s" "timerIntervalRef s' = timerIntervalRef s"
      "clock s' = clock s" "startTimeRef s' = startTimeRef s" "elapsed s' = elapsed s"
    and same: "\<And>t. timer_kind_of t = ElapsedTick \<Longrightarrow>
                 t \<in> set (timers s') \<longleftrightarrow> t \<in> set (timers s)"
  shows "timing_inv s'"
proof -
  have A: "\<forall>t \<in> set (timers s'). timer_kind_of t = ElapsedTick \<longrightarrow>
        isTiming s \<and> timer_id t = timerIntervalRef s \<and>
        timer_due t - 100 \<le> clock s \<and> startTimeRef s < timer_due t \<and>
        (timer_due t - startTimeRef s) mod 100 = 0 \<and>
        elapsed s = of_int (timer_due t - 100 - startTimeRef s) / 1000"
    using assms(1) same unfolding timing_inv_def by blast
  have B: "isTiming s \<longrightarrow>
        (\<exists>t \<in> set (timers s'). timer_id t = timerIntervalRef s \<and> timer_kind_of t = ElapsedTick)"
    using assms(1) same unfolding timing_inv_def by blast
  show ?thesis
    unfolding timing_inv_def assms(2-6) using A B by blast
qed





lemma setPeekIndex_None_wf:
  assumes "timers_wf s"
  shows "timers_wf (setPeekIndex None s)"
proof (cases "peekIndex s = None")
  case True
  with assms show ?thesis by (simp add: setPeekIndex_same)
next
  case False
  show ?thesis
    unfolding timers_wf_def setPeekIndex_None_fields [OF False]
    using assms by (auto simp: timers_wf_def setPeekIndex_frame distinct_map_filter)
qed

lemma setPeekIndex_None_peek:
  assumes "peek_inv s"
  shows "peek_inv (setPeekIndex None s)"
proof (cases "peekIndex s = None")
  case True
  with assms show ?thesis by (simp add: setPeekIndex_same)
next
  case False
  show ?thesis
    unfolding peek_inv_def setPeekIndex_None_fields [OF False]
    using peek_timer_cleanup [OF assms]
    by (auto simp: setPeekIndex_frame)
qed

lemma setPeekIndex_None_timing:
  assumes "timers_wf s" "peek_inv s" "timing_inv s"
  shows "timing_inv (setPeekIndex None s)"
proof (cases "peekIndex s = None")
  case True
  with assms show ?thesis by (simp add: setPeekIndex_same)
next
  case False
  show ?thesis
  proof (rule timing_inv_frame [OF assms(3)])
    fix t assume "timer_kind_of t = ElapsedTick"
    then show "t \<in> set (timers (setPeekIndex None s)) \<longleftrightarrow> t \<in> set (timers s)"
      using tick_timer_not_cleanup [OF assms(1,2), of t]
      by (auto simp: setPeekIndex_None_fields [OF False])
  qed (simp_all add: setPeekIndex_frame)
qed

lemma setPeekIndex_None_core: "inv_core s \<Longrightarrow> inv_core (setPeekIndex None s)"
  by (simp add: inv_core_def setPeekIndex_None_wf setPeekIndex_None_peek setPeekIndex_None_timing)

lemma setPeekIndex_timers_subset:
  "set (timers (setPeekIndex None s)) \<subseteq> set (timers s)"
  by (cases "peekIndex s = None") (auto simp: setPeekIndex_same setPeekIndex_None_fields)












lemma bump_id [simp]: "timer_id (bump t u) = timer_id u"
  by (simp add: bump_def)

lemma bump_kind [simp]: "timer_kind_of (bump t u) = timer_kind_of u"
  by (simp add: bump_def)
















section \<open>Peeks: one at a time, shown for 600 ms\<close>






lemma step_clock: "clock (step e s) = clock s + (if e = Tick then 1 else 0)"
  by (cases e)
     (simp_all add: nextStep_def prevStep_def reset_def render_def onClick_def
        setPeekIndex_frame toggleTimer_frame tick_frame)

lemma run_clock: "clock (run es s) = clock s + int (length (filter (\<lambda>e. e = Tick) es))"
  by (induction es rule: rev_induct) (simp_all add: run_Nil run_snoc step_clock)




















section \<open>Stopping the stopwatch\<close>






end
